theory Spec2Isabelle
  imports Complex_Main
begin

section \<open>Provenance intervals\<close>

text \<open>
  The tracker of \<^verbatim>\<open>text_tracker.py\<close> keeps a list of dictionaries
  \<^verbatim>\<open>{start, end, source, timestamp}\<close>. An interval is a record with these four fields;
  offsets are Python integers, the source tag is the string the code compares
  (\<^verbatim>\<open>'manual'\<close>, \<^verbatim>\<open>'pasted'\<close>), and the timestamp is the number \<^verbatim>\<open>time.time()\<close>
  returned, which the code only stores and copies. A finite Python float is a rational
  number, and is represented by that number.
\<close>

record range =
  r_start :: int
  r_end :: int
  r_source :: string
  r_timestamp :: rat

text \<open>
  The tracker object: the attached text widget (absent until \<^verbatim>\<open>set_text_widget\<close>; a
  widget is represented by the text it currently holds, which is all the tracker reads
  from it) and the interval list.
\<close>

record tracker =
  text_widget :: "string option"
  input_ranges :: "range list"

definition init_tracker :: tracker where
  "init_tracker = \<lparr>text_widget = None, input_ranges = []\<rparr>"

subsection \<open>\<^verbatim>\<open>_pos_to_index\<close>\<close>

text \<open>
  Positions are integers here: for a position that is not a string the code returns
  \<^verbatim>\<open>int(position)\<close>, the position itself.
\<close>

definition pos_to_index :: "int \<Rightarrow> int" where
  "pos_to_index position = position"

subsection \<open>\<^verbatim>\<open>_handle_deletions\<close>\<close>

text \<open>
  One pass over the list with the current buffer length: an interval that starts at or
  after the end of the buffer is skipped; every other interval has its end set to
  \<^verbatim>\<open>min(end, current_length)\<close> and is kept when its end is still after its start.
\<close>

fun handle_deletions_loop :: "int \<Rightarrow> range list \<Rightarrow> range list" where
  "handle_deletions_loop current_length [] = []"
| "handle_deletions_loop current_length (r # rs) =
     (if r_start r \<ge> current_length then handle_deletions_loop current_length rs
      else
        let r' = r\<lparr>r_end := min (r_end r) current_length\<rparr>
        in if r_end r' > r_start r' then r' # handle_deletions_loop current_length rs
           else handle_deletions_loop current_length rs)"

definition handle_deletions :: "string \<Rightarrow> range list \<Rightarrow> range list" where
  "handle_deletions buffer rs = handle_deletions_loop (int (length buffer)) rs"

subsection \<open>\<^verbatim>\<open>_update_ranges\<close>\<close>

text \<open>
  The first loop of \<^verbatim>\<open>_update_ranges\<close>: every interval is kept, shifted, or split
  around the insertion point.
\<close>

fun shift_loop :: "int \<Rightarrow> int \<Rightarrow> range list \<Rightarrow> range list" where
  "shift_loop start_idx end_idx [] = []"
| "shift_loop start_idx end_idx (r # rs) =
     (let insertion_length = end_idx - start_idx in
      (if r_end r \<le> start_idx then [r]
       else if r_start r \<ge> start_idx then
         [\<lparr>r_start = r_start r + insertion_length, r_end = r_end r + insertion_length,
           r_source = r_source r, r_timestamp = r_timestamp r\<rparr>]
       else
         (if r_start r < start_idx then
            [\<lparr>r_start = r_start r, r_end = start_idx,
              r_source = r_source r, r_timestamp = r_timestamp r\<rparr>]
          else []) @
         (if r_end r > start_idx then
            [\<lparr>r_start = end_idx, r_end = r_end r + insertion_length,
              r_source = r_source r, r_timestamp = r_timestamp r\<rparr>]
          else []))
      @ shift_loop start_idx end_idx rs)"

text \<open>
  The second loop: an interval that has the source of the last merged interval and starts
  exactly where that one ends extends it (\<^verbatim>\<open>merged[-1]['end'] = r['end']\<close>); any other
  interval is appended.
\<close>

definition merge_step :: "range list \<Rightarrow> range \<Rightarrow> range list" where
  "merge_step merged r =
     (if merged \<noteq> [] \<and> r_source (last merged) = r_source r \<and> r_end (last merged) = r_start r
      then butlast merged @ [(last merged)\<lparr>r_end := r_end r\<rparr>]
      else merged @ [r])"

definition merge_loop :: "range list \<Rightarrow> range list" where
  "merge_loop new_ranges = foldl merge_step [] new_ranges"

definition update_ranges :: "string \<Rightarrow> rat \<Rightarrow> int \<Rightarrow> int \<Rightarrow> string \<Rightarrow> range list \<Rightarrow> range list" where
  "update_ranges buffer now start_idx end_idx source rs =
     (let rs1 = handle_deletions buffer rs;
          new_ranges = shift_loop start_idx end_idx rs1 @
            [\<lparr>r_start = start_idx, r_end = end_idx, r_source = source, r_timestamp = now\<rparr>]
      in merge_loop (sort_key r_start new_ranges))"

subsection \<open>\<^verbatim>\<open>track_manual_input\<close> and \<^verbatim>\<open>track_paste_input\<close>\<close>

text \<open>
  Both return at once when no widget is attached; the paste entry point also returns at
  once on empty content. \<^verbatim>\<open>now\<close> is the value \<^verbatim>\<open>time.time()\<close> returns during the call.
\<close>

definition track_manual_input :: "rat \<Rightarrow> int \<Rightarrow> string \<Rightarrow> tracker \<Rightarrow> tracker" where
  "track_manual_input now position character t =
     (case text_widget t of
        None \<Rightarrow> t
      | Some buffer \<Rightarrow>
          let start_idx = pos_to_index position;
              end_idx = start_idx + int (length character)
          in t\<lparr>input_ranges := update_ranges buffer now start_idx end_idx ''manual'' (input_ranges t)\<rparr>)"

definition track_paste_input :: "rat \<Rightarrow> int \<Rightarrow> string \<Rightarrow> tracker \<Rightarrow> tracker" where
  "track_paste_input now position content t =
     (case text_widget t of
        None \<Rightarrow> t
      | Some buffer \<Rightarrow>
          if content = [] then t
          else
            let start_idx = pos_to_index position;
                end_idx = start_idx + int (length content)
            in t\<lparr>input_ranges := update_ranges buffer now start_idx end_idx ''pasted'' (input_ranges t)\<rparr>)"

text \<open>
  What happens to a tracker over time: the host editor changes the text of the widget (or
  attaches one), or one of the two tracking entry points is called.
\<close>

datatype event =
    SetText "string option"
  | TrackManual rat int string
  | TrackPaste rat int string

fun apply_event :: "tracker \<Rightarrow> event \<Rightarrow> tracker" where
  "apply_event t (SetText w) = t\<lparr>text_widget := w\<rparr>"
| "apply_event t (TrackManual now position character) = track_manual_input now position character t"
| "apply_event t (TrackPaste now position content) = track_paste_input now position content t"

definition run_events :: "event list \<Rightarrow> tracker \<Rightarrow> tracker" where
  "run_events es t = foldl apply_event t es"

text \<open>An insertion request as the interface describes it: offset at least 0, length at least 1.\<close>

fun insertion_ok :: "event \<Rightarrow> bool" where
  "insertion_ok (SetText w) = True"
| "insertion_ok (TrackManual now position character) = (0 \<le> position \<and> 0 < length character)"
| "insertion_ok (TrackPaste now position content) = (0 \<le> position \<and> 0 < length content)"

text \<open>The two halves of the ordering invariant, on consecutive intervals.\<close>

fun sorted_by_start :: "range list \<Rightarrow> bool" where
  "sorted_by_start (a # b # rs) = (r_start a \<le> r_start b \<and> sorted_by_start (b # rs))"
| "sorted_by_start rs = True"

fun consecutive_disjoint :: "range list \<Rightarrow> bool" where
  "consecutive_disjoint (a # b # rs) = (r_end a \<le> r_start b \<and> consecutive_disjoint (b # rs))"
| "consecutive_disjoint rs = True"


subsection \<open>Deletion reconciliation as the interface describes it\<close>

text \<open>
  The description of \<^verbatim>\<open>reconcile_deletions\<close>, clause by clause: an interval that starts at
  or after the buffer length is dropped; an interval that ends after the buffer length is
  truncated to it, and dropped when that leaves it with length zero; every other interval
  is left as it is.
\<close>

fun reconcile_spec :: "int \<Rightarrow> range list \<Rightarrow> range list" where
  "reconcile_spec current_buffer_length [] = []"
| "reconcile_spec current_buffer_length (r # rs) =
     (if r_start r \<ge> current_buffer_length then reconcile_spec current_buffer_length rs
      else if r_end r > current_buffer_length then
        (if current_buffer_length - r_start r = 0 then reconcile_spec current_buffer_length rs
         else r\<lparr>r_end := current_buffer_length\<rparr> # reconcile_spec current_buffer_length rs)
      else r # reconcile_spec current_buffer_length rs)"

subsection \<open>Auxiliary notions for the proofs\<close>

definition positive :: "range \<Rightarrow> bool" where
  "positive r = (r_start r < r_end r)"

abbreviation before :: "range \<Rightarrow> range \<Rightarrow> bool" where
  "before a b \<equiv> r_end a \<le> r_start b"

text \<open>Every interval is non-empty and every interval ends before all later ones start.\<close>

definition chain :: "range list \<Rightarrow> bool" where
  "chain rs = ((\<forall>r\<in>set rs. positive r) \<and> sorted_wrt before rs)"

section \<open>Python strings and values\<close>

text \<open>
  A Python string is a list of characters, one \<^typ>\<open>char\<close> for each character of the
  string. \<^verbatim>\<open>str.isspace\<close> on the characters a \<^typ>\<open>char\<close> can hold: tab to carriage return,
  the four separators \<^verbatim>\<open>0x1c\<close> to \<^verbatim>\<open>0x1f\<close>, space, \<^verbatim>\<open>0x85\<close> and \<^verbatim>\<open>0xa0\<close>.
\<close>

definition py_isspace :: "char \<Rightarrow> bool" where
  "py_isspace c = (of_char c \<in> {9, 10, 11, 12, 13, 28, 29, 30, 31, 32, 133, 160 :: nat})"

definition lstrip :: "string \<Rightarrow> string" where
  "lstrip s = dropWhile py_isspace s"

definition rstrip :: "string \<Rightarrow> string" where
  "rstrip s = rev (dropWhile py_isspace (rev s))"

definition strip :: "string \<Rightarrow> string" where
  "strip s = rstrip (lstrip s)"

text \<open>
  \<^verbatim>\<open>s.find(sub)\<close>: the lowest index at which \<^verbatim>\<open>sub\<close> occurs in \<^verbatim>\<open>s\<close>, or \<^verbatim>\<open>-1\<close>.
  \<^verbatim>\<open>find_loop sub rest i\<close> searches \<^verbatim>\<open>rest\<close>, the part of the string from index \<^verbatim>\<open>i\<close> on.
\<close>

fun find_loop :: "string \<Rightarrow> string \<Rightarrow> int \<Rightarrow> int" where
  "find_loop sub [] i = (if sub = [] then i else - 1)"
| "find_loop sub (c # cs) i =
     (if take (length sub) (c # cs) = sub then i else find_loop sub cs (i + 1))"

definition py_find :: "string \<Rightarrow> string \<Rightarrow> int" where
  "py_find s sub = find_loop sub s 0"

text \<open>\<^verbatim>\<open>s.find(sub, start)\<close>; a negative \<^verbatim>\<open>start\<close> counts from the end of the string.\<close>

definition py_find_from :: "string \<Rightarrow> string \<Rightarrow> int \<Rightarrow> int" where
  "py_find_from s sub start =
     (let st = (if start < 0 then max 0 (start + int (length s)) else start)
      in if st > int (length s) then - 1 else find_loop sub (drop (nat st) s) st)"

text \<open>The slice \<^verbatim>\<open>s[a:b]\<close>, with Python's clamping of both bounds.\<close>

definition clamp_index :: "string \<Rightarrow> int \<Rightarrow> nat" where
  "clamp_index s i =
     nat (if i < 0 then max 0 (i + int (length s)) else min i (int (length s)))"

definition py_slice :: "string \<Rightarrow> int \<Rightarrow> int \<Rightarrow> string" where
  "py_slice s a b = (let i = clamp_index s a; j = clamp_index s b in take (j - i) (drop i s))"

text \<open>
  The values that metadata is made of, as Python sees them: what \<^verbatim>\<open>json.loads\<close> can return
  and what the tracker hands out. A dictionary is the list of its items; its keys are
  strings and distinct.
\<close>

datatype pyval =
    PNone
  | PBool bool
  | PInt int
  | PFloat rat
  | PStr string
  | PList "pyval list"
  | PDict "(string \<times> pyval) list"

datatype py_error = JSONDecodeError | TypeError | KeyError

text \<open>\<^verbatim>\<open>key in obj\<close> for a string key: by key for a dictionary, by element for a list, by
  substring for a string, a \<^verbatim>\<open>TypeError\<close> for anything else.\<close>

fun py_in :: "string \<Rightarrow> pyval \<Rightarrow> py_error + bool" where
  "py_in k (PDict items) = Inr (map_of items k \<noteq> None)"
| "py_in k (PList xs) = Inr (PStr k \<in> set xs)"
| "py_in k (PStr s) = Inr (py_find s k \<noteq> - 1)"
| "py_in k v = Inl TypeError"

text \<open>\<^verbatim>\<open>obj[key]\<close> for a string key: only a dictionary can be indexed by a string.\<close>

fun py_getitem :: "pyval \<Rightarrow> string \<Rightarrow> py_error + pyval" where
  "py_getitem (PDict items) k = (case map_of items k of None \<Rightarrow> Inl KeyError | Some v \<Rightarrow> Inr v)"
| "py_getitem v k = Inl TypeError"

text \<open>\<^verbatim>\<open>isinstance(v, int)\<close> (a Python \<^verbatim>\<open>bool\<close> is an \<^verbatim>\<open>int\<close>) and the integer such a value is.\<close>

fun isinstance_int :: "pyval \<Rightarrow> bool" where
  "isinstance_int (PInt i) = True"
| "isinstance_int (PBool b) = True"
| "isinstance_int v = False"

fun isinstance_str :: "pyval \<Rightarrow> bool" where
  "isinstance_str (PStr s) = True"
| "isinstance_str v = False"

fun int_of :: "pyval \<Rightarrow> int" where
  "int_of (PInt i) = i"
| "int_of (PBool b) = (if b then 1 else 0)"
| "int_of v = 0"

section \<open>The metadata manager\<close>

text \<open>
  \<^verbatim>\<open>MetadataManager\<close> of \<^verbatim>\<open>metadata_manager.py\<close>: an object with one attribute, set to
  \<^verbatim>\<open>"1.0"\<close> by the constructor.
\<close>

record metadata_manager =
  version :: string

definition new_metadata_manager :: metadata_manager where
  "new_metadata_manager = \<lparr>version = ''1.0''\<rparr>"

subsection \<open>\<^verbatim>\<open>serialize_metadata\<close> and \<^verbatim>\<open>deserialize_metadata\<close>\<close>


text \<open>
  The body of the \<^verbatim>\<open>try\<close> block of \<^verbatim>\<open>deserialize_metadata\<close>, with every exception it can
  raise as a value; \<^verbatim>\<open>PNone\<close> is Python's \<^verbatim>\<open>None\<close>.
\<close>

definition deserialize_try :: "(string \<Rightarrow> py_error + pyval) \<Rightarrow> string \<Rightarrow> py_error + pyval" where
  "deserialize_try loads metadata_str =
     (if strip metadata_str = [] then Inr PNone
      else
        case loads metadata_str of
          Inl e \<Rightarrow> Inl e
        | Inr data \<Rightarrow>
            (case py_in ''ghostkey_metadata'' data of
               Inl e \<Rightarrow> Inl e
             | Inr True \<Rightarrow>
                 (case py_getitem data ''ghostkey_metadata'' of
                    Inl e \<Rightarrow> Inl e
                  | Inr envelope \<Rightarrow> py_getitem envelope ''data'')
             | Inr False \<Rightarrow>
                 (case py_in ''ranges'' data of
                    Inl e \<Rightarrow> Inl e
                  | Inr True \<Rightarrow> Inr data
                  | Inr False \<Rightarrow> Inr PNone)))"

text \<open>Both \<^verbatim>\<open>except\<close> clauses print the error and return \<^verbatim>\<open>None\<close>.\<close>

definition deserialize_metadata :: "(string \<Rightarrow> py_error + pyval) \<Rightarrow> string \<Rightarrow> pyval" where
  "deserialize_metadata loads metadata_str =
     (case deserialize_try loads metadata_str of Inl e \<Rightarrow> PNone | Inr v \<Rightarrow> v)"

subsection \<open>\<^verbatim>\<open>validate_metadata\<close>\<close>

text \<open>The checks on one element of the list, in the order of the loop body.\<close>

fun validate_range_info :: "pyval \<Rightarrow> bool" where
  "validate_range_info (PDict items) =
     (case map_of items ''start'' of
        None \<Rightarrow> False
      | Some start \<Rightarrow>
     (case map_of items ''end'' of
        None \<Rightarrow> False
      | Some end_v \<Rightarrow>
     (case map_of items ''source'' of
        None \<Rightarrow> False
      | Some source \<Rightarrow>
          if \<not> isinstance_int start then False
          else if \<not> isinstance_int end_v then False
          else if \<not> isinstance_str source then False
          else if int_of start < 0 \<or> int_of end_v < 0 then False
          else if int_of start \<ge> int_of end_v then False
          else if source \<notin> set [PStr ''manual'', PStr ''pasted''] then False
          else True)))"
| "validate_range_info v = False"

fun validate_loop :: "pyval list \<Rightarrow> bool" where
  "validate_loop [] = True"
| "validate_loop (range_info # rest) =
     (if validate_range_info range_info then validate_loop rest else False)"

fun validate_metadata :: "pyval \<Rightarrow> bool" where
  "validate_metadata (PDict items) =
     (case map_of items ''ranges'' of
        None \<Rightarrow> False
      | Some (PList ranges) \<Rightarrow> validate_loop ranges
      | Some other \<Rightarrow> False)"
| "validate_metadata v = False"

text \<open>
  \<^verbatim>\<open>TextTracker.get_metadata\<close>, the dictionary the tracker hands to the manager: version
  \<^verbatim>\<open>'1.1'\<close> and one dictionary for each interval.
\<close>

definition range_dict :: "range \<Rightarrow> pyval" where
  "range_dict r =
     PDict [(''start'', PInt (r_start r)), (''end'', PInt (r_end r)),
            (''source'', PStr (r_source r)), (''timestamp'', PFloat (r_timestamp r))]"

definition get_metadata :: "tracker \<Rightarrow> pyval" where
  "get_metadata t =
     PDict [(''version'', PStr ''1.1''), (''ranges'', PList (map range_dict (input_ranges t)))]"

text \<open>
  What the description of validation asks of one element: a dictionary with an integer
  \<^verbatim>\<open>start\<close> and \<^verbatim>\<open>end\<close>, both at least 0, \<^verbatim>\<open>start < end\<close>, and a \<^verbatim>\<open>source\<close> that is one of the
  two strings.
\<close>

fun int_field :: "pyval option \<Rightarrow> int option" where
  "int_field (Some (PInt i)) = Some i"
| "int_field v = None"

fun str_field :: "pyval option \<Rightarrow> string option" where
  "str_field (Some (PStr s)) = Some s"
| "str_field v = None"

fun well_formed_range :: "pyval \<Rightarrow> bool" where
  "well_formed_range (PDict items) =
     (case int_field (map_of items ''start'') of
        None \<Rightarrow> False
      | Some s \<Rightarrow>
     (case int_field (map_of items ''end'') of
        None \<Rightarrow> False
      | Some e \<Rightarrow>
     (case str_field (map_of items ''source'') of
        None \<Rightarrow> False
      | Some src \<Rightarrow> 0 \<le> s \<and> 0 \<le> e \<and> s < e \<and> (src = ''manual'' \<or> src = ''pasted''))))"
| "well_formed_range v = False"

text \<open>Two intervals that overlap on the offsets 5 to 9.\<close>

definition overlapping_ranges :: "range list" where
  "overlapping_ranges =
     [\<lparr>r_start = 0, r_end = 10, r_source = ''manual'', r_timestamp = 1\<rparr>,
      \<lparr>r_start = 5, r_end = 15, r_source = ''pasted'', r_timestamp = 2\<rparr>]"

subsection \<open>\<^verbatim>\<open>merge_metadata\<close>\<close>

text \<open>
  A well-typed metadata dictionary: a version and a list of intervals. An argument that is
  \<^verbatim>\<open>None\<close>, empty or without the key \<^verbatim>\<open>'ranges'\<close> contributes nothing to the merge and is
  \<^term>\<open>None\<close> here.
\<close>

record metadata =
  m_version :: string
  m_ranges :: "range list"

text \<open>
  The body of the loop: \<^verbatim>\<open>merged_ranges[-1]\<close> is extended to the larger end when it has
  the same source and ends at or after the start of \<^verbatim>\<open>range_info\<close>; otherwise a copy of
  \<^verbatim>\<open>range_info\<close> is appended.
\<close>

definition coalesce_step :: "range list \<Rightarrow> range \<Rightarrow> range list" where
  "coalesce_step merged_ranges range_info =
     (if merged_ranges \<noteq> [] \<and>
         r_source (last merged_ranges) = r_source range_info \<and>
         r_end (last merged_ranges) \<ge> r_start range_info
      then butlast merged_ranges @
             [(last merged_ranges)\<lparr>r_end := max (r_end (last merged_ranges)) (r_end range_info)\<rparr>]
      else merged_ranges @ [range_info])"

definition merge_metadata ::
  "metadata_manager \<Rightarrow> metadata option \<Rightarrow> metadata option \<Rightarrow> metadata" where
  "merge_metadata self metadata1 metadata2 =
     (let all_ranges =
            (case metadata1 of None \<Rightarrow> [] | Some m1 \<Rightarrow> m_ranges m1) @
            (case metadata2 of None \<Rightarrow> [] | Some m2 \<Rightarrow> m_ranges m2);
          sorted_ranges = sort_key r_start all_ranges;
          merged_ranges = foldl coalesce_step [] sorted_ranges
      in \<lparr>m_version = version self, m_ranges = merged_ranges\<rparr>)"

text \<open>
  The merge as its description words it: put the two interval lists together, sort by
  start, and go through the result once from the left with the current output interval
  in hand. The next interval is absorbed into it (the end becoming the larger of the two
  ends) when it has the same source and starts at or before the end of the current one;
  otherwise the current interval is output and the next one becomes current.
\<close>

fun coalesce_from :: "range \<Rightarrow> range list \<Rightarrow> range list" where
  "coalesce_from prev [] = [prev]"
| "coalesce_from prev (current # rest) =
     (if r_source prev = r_source current \<and> r_end prev \<ge> r_start current
      then coalesce_from (prev\<lparr>r_end := max (r_end prev) (r_end current)\<rparr>) rest
      else prev # coalesce_from current rest)"

fun coalesce_pass :: "range list \<Rightarrow> range list" where
  "coalesce_pass [] = []"
| "coalesce_pass (first # rest) = coalesce_from first rest"

definition merge_spec :: "string \<Rightarrow> metadata \<Rightarrow> metadata \<Rightarrow> metadata" where
  "merge_spec current_version a b =
     \<lparr>m_version = current_version,
      m_ranges = coalesce_pass (sort_key r_start (m_ranges a @ m_ranges b))\<rparr>"

subsection \<open>\<^verbatim>\<open>merge_metadata\<close> on shared objects\<close>

text \<open>
  In Python the two input lists hold references to dictionaries, and \<^verbatim>\<open>all_ranges\<close> holds
  the same references. To see which objects the loop writes to, the dictionaries live in
  a heap: an address is an index into the list of all interval objects, a Python list of
  intervals is a list of addresses, and \<^verbatim>\<open>range_info.copy()\<close> allocates a new object at the
  end of the heap. \<^verbatim>\<open>all_ranges\<close> is a new list, so sorting it leaves the input lists alone.
\<close>

type_synonym addr = nat
type_synonym heap = "range list"

definition coalesce_step_h :: "heap \<times> addr list \<Rightarrow> addr \<Rightarrow> heap \<times> addr list" where
  "coalesce_step_h st range_info =
     (let h = fst st; merged_ranges = snd st in
      if merged_ranges \<noteq> [] \<and>
         r_source (h ! last merged_ranges) = r_source (h ! range_info) \<and>
         r_end (h ! last merged_ranges) \<ge> r_start (h ! range_info)
      then (h[last merged_ranges := (h ! last merged_ranges)
               \<lparr>r_end := max (r_end (h ! last merged_ranges)) (r_end (h ! range_info))\<rparr>],
            merged_ranges)
      else (h @ [h ! range_info], merged_ranges @ [length h]))"

definition merge_metadata_h :: "heap \<Rightarrow> addr list \<Rightarrow> addr list \<Rightarrow> heap \<times> addr list" where
  "merge_metadata_h h ranges1 ranges2 =
     (let all_ranges = ranges1 @ ranges2;
          sorted_ranges = sort_key (\<lambda>a. r_start (h ! a)) all_ranges
      in foldl coalesce_step_h (h, []) sorted_ranges)"

subsection \<open>\<^verbatim>\<open>get_stats\<close>\<close>






section \<open>The file manager\<close>

subsection \<open>\<^verbatim>\<open>_parse_lakra_content\<close>\<close>

definition metadata_start :: string where
  "metadata_start = ''<!-- GHOSTKEY_METADATA_START -->''"

definition metadata_end :: string where
  "metadata_end = ''<!-- GHOSTKEY_METADATA_END -->''"

definition parse_lakra_content ::
  "(string \<Rightarrow> py_error + pyval) \<Rightarrow> string \<Rightarrow> string \<times> pyval" where
  "parse_lakra_content loads file_content =
     (let metadata_start_idx = py_find file_content metadata_start in
      if metadata_start_idx = - 1 then (file_content, PNone)
      else
        let content = rstrip (py_slice file_content 0 metadata_start_idx);
            metadata_start_idx' = metadata_start_idx + int (length metadata_start);
            metadata_end_idx = py_find_from file_content metadata_end metadata_start_idx'
        in if metadata_end_idx = - 1 then (content, PNone)
           else
             let metadata_json = strip (py_slice file_content metadata_start_idx' metadata_end_idx)
             in (content, deserialize_metadata loads metadata_json))"

text \<open>
  The text before and after the first occurrence of a delimiter, if it occurs: the notions
  the description of the embedded format uses.
\<close>

fun split_first :: "string \<Rightarrow> string \<Rightarrow> (string \<times> string) option" where
  "split_first sub [] = (if sub = [] then Some ([], []) else None)"
| "split_first sub (c # cs) =
     (if take (length sub) (c # cs) = sub then Some ([], drop (length sub) (c # cs))
      else case split_first sub cs of
             None \<Rightarrow> None
           | Some (pre, post) \<Rightarrow> Some (c # pre, post))"

section \<open>Notions used in the proofs and examples\<close>

subsection \<open>The heap during a merge\<close>

text \<open>
  While the merge loop runs on the heap: the objects that existed before the call are
  as they were, and the output list holds distinct addresses of objects allocated since.
\<close>

definition heap_inv :: "heap \<Rightarrow> heap \<times> addr list \<Rightarrow> bool" where
  "heap_inv h0 st =
     (length h0 \<le> length (fst st) \<and> take (length h0) (fst st) = h0 \<and> distinct (snd st) \<and>
      (\<forall>a\<in>set (snd st). length h0 \<le> a \<and> a < length (fst st)))"

subsection \<open>A JSON encoder and decoder for the examples\<close>

text \<open>
  One metadata dictionary, the envelope \<^verbatim>\<open>serialize_metadata\<close> builds around it at time 2,
  and the compact JSON text of that envelope; the text of an empty set in the legacy form.
  The encoder and decoder below know these documents and nothing else: they stand for the
  JSON library in the examples, where only these texts are encoded or decoded.
\<close>

definition sample_set :: pyval where
  "sample_set =
     PDict [(''version'', PStr ''1.1''),
            (''ranges'', PList [PDict [(''start'', PInt 0), (''end'', PInt 5),
                                      (''source'', PStr ''manual''), (''timestamp'', PFloat 1)]])]"

definition sample_envelope :: pyval where
  "sample_envelope =
     PDict [(''ghostkey_metadata'',
       PDict [(''version'', PStr ''1.0''), (''created'', PFloat 2), (''data'', sample_set)])]"

definition sample_text :: string where
  \<open>sample_text = ''{"ghostkey_metadata":{"version":"1.0","created":2.0,"data":{"version":"1.1","ranges":[{"start":0,"end":5,"source":"manual","timestamp":1.0}]}}}''\<close>

definition legacy_text :: string where
  \<open>legacy_text = ''{"ranges":[]}''\<close>


definition sample_loads :: "string \<Rightarrow> py_error + pyval" where
  "sample_loads s =
     (if s = sample_text then Inr sample_envelope
      else if s = legacy_text then Inr (PDict [(''ranges'', PList [])])
      else Inl JSONDecodeError)"

section \<open>Properties of the tracker\<close>

subsection \<open>Deletion reconciliation\<close>

lemma handle_deletions_loop_mem:
  "x \<in> set (handle_deletions_loop L rs) \<Longrightarrow>
     \<exists>r\<in>set rs. r_start x = r_start r \<and> r_end x \<le> r_end r \<and> r_start x < r_end x"
  by (induction rs) (auto simp: Let_def split: if_splits)

lemma chain_handle_deletions_loop: "chain rs \<Longrightarrow> chain (handle_deletions_loop L rs)"
proof (induction rs)
  case Nil
  then show ?case by (simp add: chain_def)
next
  case (Cons r rs)
  then have ih: "chain (handle_deletions_loop L rs)" by (simp add: chain_def)
  have later: "\<forall>x\<in>set (handle_deletions_loop L rs). r_end r \<le> r_start x"
    using Cons.prems handle_deletions_loop_mem[of _ L rs] by (fastforce simp: chain_def)
  show ?case using ih later by (auto simp: chain_def Let_def positive_def)
qed

text \<open>
  Without any assumption on the intervals, the loop is: keep the intervals that start
  inside the buffer, cut each at the buffer length, keep those that are non-empty.
\<close>

lemma handle_deletions_loop_filter_map:
  "handle_deletions_loop L rs =
     filter (\<lambda>r. r_start r < r_end r)
       (map (\<lambda>r. r\<lparr>r_end := min (r_end r) L\<rparr>) (filter (\<lambda>r. r_start r < L) rs))"
  by (induction rs) (auto simp: Let_def)

subsection \<open>Insertion keeps the intervals ordered and disjoint\<close>

lemma shift_loop_mem:
  "y \<in> set (shift_loop s e rs) \<Longrightarrow>
     \<exists>r\<in>set rs.
        (y = r \<and> r_end r \<le> s) \<or>
        (\<not> r_end r \<le> s \<and> s \<le> r_start r \<and>
           r_start y = r_start r + (e - s) \<and> r_end y = r_end r + (e - s)) \<or>
        (r_start r < s \<and> s < r_end r \<and> r_start y = r_start r \<and> r_end y = s) \<or>
        (r_start r < s \<and> s < r_end r \<and> r_start y = e \<and> r_end y = r_end r + (e - s))"
  by (induction rs) (auto simp: Let_def split: if_splits)

lemma shift_loop_side:
  assumes "y \<in> set (shift_loop s e rs)" "\<forall>r\<in>set rs. positive r" "s < e"
  shows "positive y \<and> (r_end y \<le> s \<or> e \<le> r_start y)"
  using shift_loop_mem[OF assms(1)] assms(2,3) by (auto simp: positive_def)

lemma shift_loop_later:
  assumes "y \<in> set (shift_loop s e rs)" "\<forall>r\<in>set rs. b \<le> r_start r" "s < e"
    "\<forall>r\<in>set rs. positive r"
  shows "b \<le> r_start y \<and> (s \<le> b \<longrightarrow> b + (e - s) \<le> r_start y)"
proof -
  obtain r where r: "r \<in> set rs" and c: "(y = r \<and> r_end r \<le> s) \<or>
        (\<not> r_end r \<le> s \<and> s \<le> r_start r \<and>
           r_start y = r_start r + (e - s) \<and> r_end y = r_end r + (e - s)) \<or>
        (r_start r < s \<and> s < r_end r \<and> r_start y = r_start r \<and> r_end y = s) \<or>
        (r_start r < s \<and> s < r_end r \<and> r_start y = e \<and> r_end y = r_end r + (e - s))"
    using shift_loop_mem[OF assms(1)] by blast
  have "b \<le> r_start r" "r_start r < r_end r" using r assms(2,4) by (auto simp: positive_def)
  then show ?thesis using c assms(3) by auto
qed

lemma chain_shift_loop:
  "chain rs \<Longrightarrow> s < e \<Longrightarrow> sorted_wrt before (shift_loop s e rs)"
proof (induction rs)
  case Nil
  then show ?case by simp
next
  case (Cons r rs)
  then have ih: "sorted_wrt before (shift_loop s e rs)" by (simp add: chain_def)
  have "\<forall>x\<in>set rs. r_end r \<le> r_start x" using Cons.prems by (auto simp: chain_def)
  then have later: "\<forall>y\<in>set (shift_loop s e rs).
      r_end r \<le> r_start y \<and> (s \<le> r_end r \<longrightarrow> r_end r + (e - s) \<le> r_start y)"
    using shift_loop_later[of _ s e rs "r_end r"] Cons.prems by (simp add: chain_def)
  have pos: "r_start r < r_end r" using Cons.prems by (simp add: chain_def positive_def)
  show ?case using ih later pos Cons.prems(2)
    by (auto simp: Let_def sorted_wrt_append)
qed

lemma chain_distinct: "chain rs \<Longrightarrow> distinct rs"
  by (induction rs) (fastforce simp: chain_def positive_def)+

lemma chain_pairwise:
  "chain rs \<Longrightarrow> a \<in> set rs \<Longrightarrow> b \<in> set rs \<Longrightarrow> a \<noteq> b \<Longrightarrow> before a b \<or> before b a"
  by (induction rs) (auto simp: chain_def)

text \<open>
  A list of non-empty, pairwise disjoint intervals that is sorted by start is a chain:
  this is what the sort establishes, whatever order the first loop left.
\<close>

lemma sorted_disjoint_chain:
  assumes "sorted (map r_start rs)" "distinct rs" "\<forall>r\<in>set rs. positive r"
    "\<forall>a\<in>set rs. \<forall>b\<in>set rs. a \<noteq> b \<longrightarrow> before a b \<or> before b a"
  shows "chain rs"
  using assms
proof (induction rs)
  case Nil
  then show ?case by (simp add: chain_def)
next
  case (Cons r rs)
  then have ih: "chain rs" by simp
  have "before r y" if "y \<in> set rs" for y
  proof -
    have "r \<noteq> y" "r_start r \<le> r_start y" "positive y" using Cons.prems that by auto
    moreover have "before r y \<or> before y r" using Cons.prems(4) that \<open>r \<noteq> y\<close> by simp
    ultimately show ?thesis by (auto simp: positive_def)
  qed
  then show ?case using ih Cons.prems(3) by (simp add: chain_def)
qed

lemma chain_insert_sorted:
  assumes "chain rs" "s < e"
  shows "chain (sort_key r_start (shift_loop s e rs @
           [\<lparr>r_start = s, r_end = e, r_source = src, r_timestamp = now\<rparr>]))"
proof -
  let ?n = "\<lparr>r_start = s, r_end = e, r_source = src, r_timestamp = now\<rparr>"
  let ?xs = "shift_loop s e rs"
  have pos: "\<forall>r\<in>set rs. positive r" using assms(1) by (simp add: chain_def)
  have side: "positive y \<and> (r_end y \<le> s \<or> e \<le> r_start y)" if "y \<in> set ?xs" for y
    using shift_loop_side[OF that pos assms(2)] .
  have cx: "chain ?xs" using chain_shift_loop[OF assms] side by (simp add: chain_def)
  have nn: "?n \<notin> set ?xs" using side[of ?n] assms(2) by auto
  show ?thesis
  proof (rule sorted_disjoint_chain)
    show "sorted (map r_start (sort_key r_start (?xs @ [?n])))" by simp
    show "distinct (sort_key r_start (?xs @ [?n]))" using chain_distinct[OF cx] nn by simp
    show "\<forall>r\<in>set (sort_key r_start (?xs @ [?n])). positive r"
      using side assms(2) by (auto simp: positive_def)
    show "\<forall>a\<in>set (sort_key r_start (?xs @ [?n])). \<forall>b\<in>set (sort_key r_start (?xs @ [?n])).
            a \<noteq> b \<longrightarrow> before a b \<or> before b a"
      using side chain_pairwise[OF cx] by auto
  qed
qed

lemma chain_merge_step:
  assumes "chain (merged @ r # rest)"
  shows "chain (merge_step merged r @ rest)"
proof (cases "merged \<noteq> [] \<and> r_source (last merged) = r_source r \<and> r_end (last merged) = r_start r")
  case False
  then show ?thesis using assms by (auto simp: merge_step_def)
next
  case True
  then obtain ms l where m: "merged = ms @ [l]" by (metis append_butlast_last_id)
  with True have eq: "r_end l = r_start r" by simp
  have "chain (ms @ l\<lparr>r_end := r_end r\<rparr> # rest)"
    using assms eq unfolding m chain_def
    by (auto simp: sorted_wrt_append positive_def)
  then show ?thesis using True m by (simp add: merge_step_def)
qed

lemma chain_foldl_merge_step:
  "chain (merged @ rs) \<Longrightarrow> chain (foldl merge_step merged rs)"
proof (induction rs arbitrary: merged)
  case Nil
  then show ?case by simp
next
  case (Cons r rs)
  show ?case using Cons.IH[OF chain_merge_step[OF Cons.prems]] by simp
qed

lemma chain_merge_loop: "chain rs \<Longrightarrow> chain (merge_loop rs)"
  using chain_foldl_merge_step[of "[]" rs] by (simp add: merge_loop_def)

lemma chain_update_ranges:
  "chain rs \<Longrightarrow> s < e \<Longrightarrow> chain (update_ranges buffer now s e src rs)"
  unfolding update_ranges_def Let_def handle_deletions_def
  by (intro chain_merge_loop chain_insert_sorted chain_handle_deletions_loop)

lemma chain_apply_event:
  "chain (input_ranges t) \<Longrightarrow> insertion_ok ev \<Longrightarrow> chain (input_ranges (apply_event t ev))"
  by (cases ev)
    (auto simp: track_manual_input_def track_paste_input_def pos_to_index_def Let_def
       intro: chain_update_ranges split: option.splits)

lemma chain_run_events:
  "chain (input_ranges t) \<Longrightarrow> \<forall>ev\<in>set es. insertion_ok ev \<Longrightarrow>
     chain (input_ranges (run_events es t))"
  unfolding run_events_def
  by (induction es arbitrary: t) (auto intro: chain_apply_event)

lemma chain_sorted_by_start: "chain rs \<Longrightarrow> sorted_by_start rs"
  by (induction rs rule: sorted_by_start.induct) (auto simp: chain_def positive_def)

lemma chain_consecutive_disjoint: "chain rs \<Longrightarrow> consecutive_disjoint rs"
  by (induction rs rule: consecutive_disjoint.induct) (auto simp: chain_def)

text \<open>
  Claim C1. Start from the empty tracker and let any finite sequence of events happen:
  the host changing the buffer, and insertions recorded through \<^verbatim>\<open>track_manual_input\<close>
  and \<^verbatim>\<open>track_paste_input\<close> with an offset of at least 0 and at least one character. The
  resulting interval list is sorted ascending by start, and each interval ends at or
  before the start of the next one.
\<close>

theorem record_insertion_sorted_disjoint:
  assumes "\<forall>ev\<in>set es. insertion_ok ev"
  shows "sorted_by_start (input_ranges (run_events es init_tracker)) \<and>
         consecutive_disjoint (input_ranges (run_events es init_tracker))"
proof -
  have "chain (input_ranges init_tracker)" by (simp add: init_tracker_def chain_def)
  then have "chain (input_ranges (run_events es init_tracker))"
    using assms by (rule chain_run_events)
  then show ?thesis by (simp add: chain_sorted_by_start chain_consecutive_disjoint)
qed

theorem record_insertion_sorted_disjoint_witness:
  "list_all insertion_ok
     [SetText (Some ''hello''), TrackManual 1 0 ''hello'',
      SetText (Some ''hello!''), TrackPaste 2 5 ''!'',
      SetText (Some ''heXYllo!''), TrackPaste 3 2 ''XY''] \<and>
   sorted_by_start (input_ranges (run_events
      [SetText (Some ''hello''), TrackManual 1 0 ''hello'',
       SetText (Some ''hello!''), TrackPaste 2 5 ''!'',
       SetText (Some ''heXYllo!''), TrackPaste 3 2 ''XY''] init_tracker)) \<and>
   consecutive_disjoint (input_ranges (run_events
      [SetText (Some ''hello''), TrackManual 1 0 ''hello'',
       SetText (Some ''hello!''), TrackPaste 2 5 ''!'',
       SetText (Some ''heXYllo!''), TrackPaste 3 2 ''XY''] init_tracker))"
  using record_insertion_sorted_disjoint
    [of "[SetText (Some ''hello''), TrackManual 1 0 ''hello'',
          SetText (Some ''hello!''), TrackPaste 2 5 ''!'',
          SetText (Some ''heXYllo!''), TrackPaste 3 2 ''XY'']"]
  by simp

text \<open>
  Claim C7, as amended. For every tracker state and every buffer, \<^verbatim>\<open>_handle_deletions\<close>
  discards every interval that is empty (\<^verbatim>\<open>end <= start\<close>), truncated or not, and does what
  the description of deletion reconciliation says with all the others for the length of
  that buffer: it drops those that start at or after that length, truncates those that end
  after it, and leaves the rest unchanged. On a state in which every interval has
  \<^verbatim>\<open>start < end\<close> nothing is discarded and the pass is the description itself.
\<close>

theorem handle_deletions_reconciles:
  "handle_deletions buffer rs =
     reconcile_spec (int (length buffer)) (filter (\<lambda>r. r_start r < r_end r) rs) \<and>
   (list_all (\<lambda>r. r_start r < r_end r) rs \<longrightarrow>
      handle_deletions buffer rs = reconcile_spec (int (length buffer)) rs)"
proof -
  have loop: "handle_deletions_loop L rs =
      reconcile_spec L (filter (\<lambda>r. r_start r < r_end r) rs)" for L
    by (induction rs) (auto simp: Let_def min_def)
  have "filter (\<lambda>r. r_start r < r_end r) rs = rs" if "list_all (\<lambda>r. r_start r < r_end r) rs"
    using that by (simp add: list_all_iff)
  then show ?thesis using loop by (simp add: handle_deletions_def)
qed

theorem handle_deletions_reconciles_witness:
  "list_all (\<lambda>r. r_start r < r_end r)
     [\<lparr>r_start = 0, r_end = 10, r_source = ''manual'', r_timestamp = 1\<rparr>] \<and>
   handle_deletions ''abcdef''
     [\<lparr>r_start = 0, r_end = 10, r_source = ''manual'', r_timestamp = 1\<rparr>] =
     [\<lparr>r_start = 0, r_end = 6, r_source = ''manual'', r_timestamp = 1\<rparr>]"
  using handle_deletions_reconciles
    [of "''abcdef''" "[\<lparr>r_start = 0, r_end = 10, r_source = ''manual'', r_timestamp = 1\<rparr>]"]
  by simp

text \<open>
  Not every interval that lies inside the buffer and needs no truncation is left
  unchanged. With a buffer of length 6, the tracker state that holds the single interval
  from 2 to 2 (what \<^verbatim>\<open>track_manual_input(2, '')\<close> records on an empty tracker) is emptied
  by the pass, where the description keeps the interval.
\<close>

theorem handle_deletions_drops_empty:
  "handle_deletions ''abcdef''
     [\<lparr>r_start = 2, r_end = 2, r_source = ''manual'', r_timestamp = 1\<rparr>] = [] \<and>
   reconcile_spec 6 [\<lparr>r_start = 2, r_end = 2, r_source = ''manual'', r_timestamp = 1\<rparr>] =
     [\<lparr>r_start = 2, r_end = 2, r_source = ''manual'', r_timestamp = 1\<rparr>] \<and>
   input_ranges (track_manual_input 1 2 [] \<lparr>text_widget = Some ''abcdef'', input_ranges = []\<rparr>) =
     [\<lparr>r_start = 2, r_end = 2, r_source = ''manual'', r_timestamp = 1\<rparr>]"
  by (simp add: handle_deletions_def track_manual_input_def update_ranges_def pos_to_index_def
      merge_loop_def merge_step_def)

text \<open>
  Claim C2, as amended. A paste request with empty content, and any insertion request made
  while no text widget is attached, returns at once: the tracker is unchanged, and nothing
  is raised.
\<close>

theorem track_rejects:
  "track_manual_input now position character (t\<lparr>text_widget := None\<rparr>) = t\<lparr>text_widget := None\<rparr> \<and>
   track_paste_input now position content (t\<lparr>text_widget := None\<rparr>) = t\<lparr>text_widget := None\<rparr> \<and>
   track_paste_input now position [] t = t"
  by (simp add: track_manual_input_def track_paste_input_def split: option.splits)

theorem track_rejects_witness:
  "track_manual_input 1 0 ''a'' init_tracker = init_tracker \<and>
   track_paste_input 1 0 ''abc'' init_tracker = init_tracker \<and>
   track_paste_input 3 2 []
     \<lparr>text_widget = Some ''hello'',
      input_ranges = [\<lparr>r_start = 0, r_end = 5, r_source = ''manual'', r_timestamp = 1\<rparr>]\<rparr> =
     \<lparr>text_widget = Some ''hello'',
      input_ranges = [\<lparr>r_start = 0, r_end = 5, r_source = ''manual'', r_timestamp = 1\<rparr>]\<rparr>"
  using track_rejects[of 1 0 "''a''" init_tracker "''abc''"]
    track_rejects[of 3 2 "[]" "\<lparr>text_widget = Some ''hello'',
      input_ranges = [\<lparr>r_start = 0, r_end = 5, r_source = ''manual'', r_timestamp = 1\<rparr>]\<rparr>" "[]"]
  by (simp add: init_tracker_def)

text \<open>
  A request with a negative offset is not rejected. With the buffer holding \<^verbatim>\<open>ab\<close> and no
  intervals recorded, \<^verbatim>\<open>track_paste_input(-3, "ab")\<close> records the interval from -3 to -1.
\<close>

theorem negative_offset_recorded:
  "input_ranges (track_paste_input 1 (- 3) ''ab'' \<lparr>text_widget = Some ''ab'', input_ranges = []\<rparr>) =
     [\<lparr>r_start = - 3, r_end = - 1, r_source = ''pasted'', r_timestamp = 1\<rparr>] \<and>
   input_ranges (track_paste_input 1 (- 3) ''ab'' \<lparr>text_widget = Some ''ab'', input_ranges = []\<rparr>) \<noteq> []"
  by (simp add: track_paste_input_def update_ranges_def handle_deletions_def pos_to_index_def
      merge_loop_def merge_step_def)

section \<open>Properties of the metadata manager\<close>

subsection \<open>Encoding and decoding\<close>

lemma strip_Nil: "strip [] = []"
  by (simp add: strip_def rstrip_def lstrip_def)

lemma sample_text_not_blank: "strip sample_text \<noteq> []"
  by (simp add: sample_text_def strip_def rstrip_def lstrip_def py_isspace_def)

lemma legacy_text_not_blank: "strip legacy_text \<noteq> []"
  by (simp add: legacy_text_def strip_def rstrip_def lstrip_def py_isspace_def)

lemma sample_loads_simps:
  "sample_loads sample_text = Inr sample_envelope"
  "sample_loads legacy_text = Inr (PDict [(''ranges'', PList [])])"
  "sample_loads ''not json'' = Inl JSONDecodeError"
  by (simp_all add: sample_loads_def sample_text_def legacy_text_def)



text \<open>
  Claim C5. \<^verbatim>\<open>deserialize_metadata\<close> returns a value for every text: \<^verbatim>\<open>None\<close> when the text
  is empty or blank, \<^verbatim>\<open>None\<close> when the JSON library rejects it, \<^verbatim>\<open>None\<close> whenever anything
  else in the body raises; the \<^verbatim>\<open>data\<close> entry of the envelope when the text is a versioned
  envelope; and the whole dictionary when the text is the legacy form with a \<^verbatim>\<open>ranges\<close> key.
\<close>

theorem deserialize_never_raises:
  "(strip s = [] \<longrightarrow> deserialize_metadata loads s = PNone) \<and>
   (loads s = Inl e \<longrightarrow> deserialize_metadata loads s = PNone) \<and>
   (deserialize_try loads s = Inl e \<longrightarrow> deserialize_metadata loads s = PNone) \<and>
   (strip s \<noteq> [] \<and> loads s = Inr (PDict items) \<and>
      map_of items ''ghostkey_metadata'' = Some (PDict envelope) \<and>
      map_of envelope ''data'' = Some S \<longrightarrow> deserialize_metadata loads s = S) \<and>
   (strip s \<noteq> [] \<and> loads s = Inr (PDict items) \<and>
      map_of items ''ghostkey_metadata'' = None \<and>
      map_of items ''ranges'' = Some rs \<longrightarrow> deserialize_metadata loads s = PDict items) \<and>
   deserialize_metadata loads [] = PNone"
  by (auto simp: deserialize_metadata_def deserialize_try_def strip_Nil)

theorem deserialize_never_raises_witness:
  "deserialize_metadata sample_loads [] = PNone \<and>
   sample_loads ''not json'' = Inl JSONDecodeError \<and>
   deserialize_metadata sample_loads ''not json'' = PNone \<and>
   deserialize_metadata sample_loads sample_text = sample_set \<and>
   deserialize_metadata sample_loads legacy_text = PDict [(''ranges'', PList [])]"
  using deserialize_never_raises[of "[]" sample_loads]
    deserialize_never_raises[of "''not json''" sample_loads JSONDecodeError]
    deserialize_never_raises[of sample_text sample_loads _
      "[(''ghostkey_metadata'',
         PDict [(''version'', PStr ''1.0''), (''created'', PFloat 2), (''data'', sample_set)])]"
      "[(''version'', PStr ''1.0''), (''created'', PFloat 2), (''data'', sample_set)]" sample_set]
    deserialize_never_raises[of legacy_text sample_loads _ "[(''ranges'', PList [])]" _ _ "PList []"]
    sample_text_not_blank legacy_text_not_blank
  by (simp add: sample_loads_simps sample_envelope_def)

subsection \<open>Validation\<close>

lemma int_field_Some: "int_field v = Some i \<Longrightarrow> v = Some (PInt i)"
  by (erule int_field.elims) simp_all

lemma str_field_Some: "str_field v = Some s \<Longrightarrow> v = Some (PStr s)"
  by (erule str_field.elims) simp_all

lemma well_formed_validate: "well_formed_range r \<Longrightarrow> validate_range_info r"
proof (cases r)
  case (PDict items)
  assume wf: "well_formed_range r"
  obtain s e src where
    f: "int_field (map_of items ''start'') = Some s" "int_field (map_of items ''end'') = Some e"
    "str_field (map_of items ''source'') = Some src"
    and c: "0 \<le> s" "0 \<le> e" "s < e" "src = ''manual'' \<or> src = ''pasted''"
    using wf unfolding PDict by (auto split: option.splits)
  show ?thesis unfolding PDict
    using int_field_Some[OF f(1)] int_field_Some[OF f(2)] str_field_Some[OF f(3)] c by auto
qed simp_all

lemma validate_loop_all: "list_all well_formed_range rs \<Longrightarrow> validate_loop rs"
  by (induction rs) (simp_all add: well_formed_validate)

lemma validate_overlapping:
  "validate_metadata (get_metadata \<lparr>text_widget = w, input_ranges = overlapping_ranges\<rparr>)"
  by (simp add: get_metadata_def overlapping_ranges_def range_dict_def)

lemma overlapping_not_disjoint: "\<not> consecutive_disjoint overlapping_ranges"
  by (simp add: overlapping_ranges_def)

text \<open>
  Claim C8. \<^verbatim>\<open>validate_metadata\<close> accepts every dictionary whose \<^verbatim>\<open>ranges\<close> entry is a list
  of dictionaries with an integer \<^verbatim>\<open>start\<close> and \<^verbatim>\<open>end\<close>, both at least 0, \<^verbatim>\<open>start < end\<close>, and
  a \<^verbatim>\<open>source\<close> that is \<^verbatim>\<open>'manual'\<close> or \<^verbatim>\<open>'pasted'\<close>. It checks neither the order nor the
  disjointness of the intervals: the metadata of a tracker that holds the overlapping
  intervals 0 to 10 and 5 to 15 is accepted.
\<close>

theorem validate_structural_only:
  "(map_of items ''ranges'' = Some (PList ranges) \<and> list_all well_formed_range ranges
      \<longrightarrow> validate_metadata (PDict items)) \<and>
   validate_metadata (get_metadata \<lparr>text_widget = w, input_ranges = overlapping_ranges\<rparr>) \<and>
   \<not> consecutive_disjoint overlapping_ranges"
  using validate_overlapping overlapping_not_disjoint by (simp add: validate_loop_all)

theorem validate_structural_only_witness:
  "map_of [(''version'', PStr ''1.1''), (''ranges'', PList (map range_dict overlapping_ranges))]
     ''ranges'' = Some (PList (map range_dict overlapping_ranges)) \<and>
   list_all well_formed_range (map range_dict overlapping_ranges) \<and>
   validate_metadata
     (PDict [(''version'', PStr ''1.1''), (''ranges'', PList (map range_dict overlapping_ranges))]) \<and>
   \<not> consecutive_disjoint overlapping_ranges"
proof -
  have wf: "list_all well_formed_range (map range_dict overlapping_ranges)"
    by (simp add: overlapping_ranges_def range_dict_def)
  show ?thesis
    using validate_structural_only
      [of "[(''version'', PStr ''1.1''), (''ranges'', PList (map range_dict overlapping_ranges))]"
          "map range_dict overlapping_ranges" None] wf
    by simp
qed

subsection \<open>Merging\<close>

lemma foldl_coalesce_step_snoc:
  "foldl coalesce_step (acc @ [prev]) rs = acc @ coalesce_from prev rs"
proof (induction rs arbitrary: acc prev)
  case Nil
  then show ?case by simp
next
  case (Cons r rs)
  show ?case
  proof (cases "r_source prev = r_source r \<and> r_end prev \<ge> r_start r")
    case True
    then have "coalesce_step (acc @ [prev]) r =
        acc @ [prev\<lparr>r_end := max (r_end prev) (r_end r)\<rparr>]"
      by (simp add: coalesce_step_def)
    then show ?thesis using True Cons.IH[of acc] by simp
  next
    case False
    then have "coalesce_step (acc @ [prev]) r = (acc @ [prev]) @ [r]"
      by (auto simp: coalesce_step_def)
    then show ?thesis using False Cons.IH[of "acc @ [prev]" r] by auto
  qed
qed

lemma foldl_coalesce_step_pass: "foldl coalesce_step [] rs = coalesce_pass rs"
proof (cases rs)
  case Nil
  then show ?thesis by simp
next
  case (Cons r rest)
  have "foldl coalesce_step [] (r # rest) = foldl coalesce_step ([] @ [r]) rest"
    by (simp add: coalesce_step_def)
  then show ?thesis using foldl_coalesce_step_snoc[of "[]" r rest] Cons by simp
qed

text \<open>
  Claim C6. For two metadata dictionaries, \<^verbatim>\<open>merge_metadata\<close> returns the intervals of both,
  sorted by start and coalesced in one pass from the left, an interval being absorbed into
  the previous output interval exactly when it has the same source and starts at or before
  that interval's end, the end becoming the larger of the two; the version of the result
  is the manager's own, whatever the versions of the inputs.
\<close>

theorem merge_metadata_refines_spec:
  "merge_metadata self (Some a) (Some b) = merge_spec (version self) a b"
  by (simp add: merge_metadata_def merge_spec_def foldl_coalesce_step_pass)

theorem merge_metadata_refines_spec_witness:
  "merge_metadata new_metadata_manager
     (Some \<lparr>m_version = ''1.1'', m_ranges =
        [\<lparr>r_start = 0, r_end = 10, r_source = ''manual'', r_timestamp = 1\<rparr>,
         \<lparr>r_start = 20, r_end = 30, r_source = ''pasted'', r_timestamp = 2\<rparr>]\<rparr>)
     (Some \<lparr>m_version = ''0.9'', m_ranges =
        [\<lparr>r_start = 5, r_end = 15, r_source = ''manual'', r_timestamp = 3\<rparr>,
         \<lparr>r_start = 12, r_end = 13, r_source = ''manual'', r_timestamp = 4\<rparr>,
         \<lparr>r_start = 30, r_end = 31, r_source = ''pasted'', r_timestamp = 5\<rparr>]\<rparr>) =
   \<lparr>m_version = ''1.0'', m_ranges =
        [\<lparr>r_start = 0, r_end = 15, r_source = ''manual'', r_timestamp = 1\<rparr>,
         \<lparr>r_start = 20, r_end = 31, r_source = ''pasted'', r_timestamp = 2\<rparr>]\<rparr>"
  using merge_metadata_refines_spec[of new_metadata_manager
     "\<lparr>m_version = ''1.1'', m_ranges =
        [\<lparr>r_start = 0, r_end = 10, r_source = ''manual'', r_timestamp = 1\<rparr>,
         \<lparr>r_start = 20, r_end = 30, r_source = ''pasted'', r_timestamp = 2\<rparr>]\<rparr>"
     "\<lparr>m_version = ''0.9'', m_ranges =
        [\<lparr>r_start = 5, r_end = 15, r_source = ''manual'', r_timestamp = 3\<rparr>,
         \<lparr>r_start = 12, r_end = 13, r_source = ''manual'', r_timestamp = 4\<rparr>,
         \<lparr>r_start = 30, r_end = 31, r_source = ''pasted'', r_timestamp = 5\<rparr>]\<rparr>"]
  by (simp add: merge_spec_def new_metadata_manager_def)

subsection \<open>Merging does not write to its inputs\<close>

lemma heap_inv_old: "heap_inv h0 (h, ms) \<Longrightarrow> a < length h0 \<Longrightarrow> h ! a = h0 ! a"
  by (metis fst_conv heap_inv_def nth_take)

lemma map_nth_update_butlast:
  assumes "distinct ms" "ms \<noteq> []"
  shows "map ((!) (h[last ms := v])) (butlast ms) = map ((!) h) (butlast ms)"
proof -
  have "last ms \<notin> set (butlast ms)"
    using assms by (metis append_butlast_last_id distinct_butlast not_distinct_conv_prefix)
  then have "h[last ms := v] ! x = h ! x" if "x \<in> set (butlast ms)" for x
    using that by (metis nth_list_update_neq)
  then show ?thesis by simp
qed

lemma coalesce_step_h_inv:
  assumes "heap_inv h0 (h, ms)" "a < length h0"
  shows "heap_inv h0 (coalesce_step_h (h, ms) a) \<and>
         map ((!) (fst (coalesce_step_h (h, ms) a))) (snd (coalesce_step_h (h, ms) a)) =
           coalesce_step (map ((!) h) ms) (h0 ! a)"
proof -
  have old: "h ! a = h0 ! a" using heap_inv_old[OF assms] .
  have len: "length h0 \<le> length h" and tk: "take (length h0) h = h0" and d: "distinct ms"
    and fresh: "\<forall>b\<in>set ms. length h0 \<le> b \<and> b < length h"
    using assms(1) by (auto simp: heap_inv_def)
  show ?thesis
  proof (cases "ms \<noteq> [] \<and> r_source (h ! last ms) = r_source (h ! a) \<and>
      r_end (h ! last ms) \<ge> r_start (h ! a)")
    case True
    let ?v = "(h ! last ms)\<lparr>r_end := max (r_end (h ! last ms)) (r_end (h ! a))\<rparr>"
    have step: "coalesce_step_h (h, ms) a = (h[last ms := ?v], ms)"
      using True by (simp add: coalesce_step_h_def Let_def)
    have lm: "last ms \<in> set ms" using True by simp
    then have lb: "length h0 \<le> last ms" "last ms < length h" using fresh by auto
    have inv: "heap_inv h0 (h[last ms := ?v], ms)"
      using len tk d fresh lb by (simp add: heap_inv_def take_update_cancel)
    have ms: "ms = butlast ms @ [last ms]" using True by simp
    have "map ((!) (h[last ms := ?v])) ms =
          map ((!) (h[last ms := ?v])) (butlast ms) @ [h[last ms := ?v] ! last ms]"
      by (subst ms) simp
    also have "\<dots> = map ((!) h) (butlast ms) @ [?v]"
      using map_nth_update_butlast[OF d] True lb by simp
    finally have "map ((!) (h[last ms := ?v])) ms = coalesce_step (map ((!) h) ms) (h0 ! a)"
      using True old by (simp add: coalesce_step_def last_map map_butlast)
    then show ?thesis using step inv by simp
  next
    case False
    have step: "coalesce_step_h (h, ms) a = (h @ [h ! a], ms @ [length h])"
      using False by (auto simp: coalesce_step_h_def Let_def)
    have inv: "heap_inv h0 (h @ [h ! a], ms @ [length h])"
      using len tk d fresh by (auto simp: heap_inv_def)
    have "map ((!) (h @ [h ! a])) ms = map ((!) h) ms"
      using fresh by (auto simp: nth_append)
    then have "map ((!) (h @ [h ! a])) (ms @ [length h]) =
        coalesce_step (map ((!) h) ms) (h0 ! a)"
      using False old by (auto simp: coalesce_step_def last_map)
    then show ?thesis using step inv by simp
  qed
qed

lemma foldl_coalesce_step_h_inv:
  assumes "heap_inv h0 st" "\<forall>a\<in>set as. a < length h0"
  shows "heap_inv h0 (foldl coalesce_step_h st as) \<and>
         map ((!) (fst (foldl coalesce_step_h st as))) (snd (foldl coalesce_step_h st as)) =
           foldl coalesce_step (map ((!) (fst st)) (snd st)) (map ((!) h0) as)"
  using assms
proof (induction as arbitrary: st)
  case Nil
  then show ?case by simp
next
  case (Cons a as)
  obtain h ms where st: "st = (h, ms)" by (cases st)
  have s: "heap_inv h0 (coalesce_step_h st a) \<and>
         map ((!) (fst (coalesce_step_h st a))) (snd (coalesce_step_h st a)) =
           coalesce_step (map ((!) (fst st)) (snd st)) (h0 ! a)"
    using coalesce_step_h_inv[of h0 h ms a] Cons.prems st by simp
  show ?case using Cons.IH[of "coalesce_step_h st a"] s Cons.prems(2) by simp
qed

lemma map_insort_key:
  "map f (insort_key (\<lambda>x. g (f x)) a xs) = insort_key g (f a) (map f xs)"
  by (induction xs) auto

lemma map_sort_key:
  "map f (sort_key (\<lambda>x. g (f x)) xs) = sort_key g (map f xs)"
  by (induction xs) (auto simp: map_insort_key)

text \<open>
  Claim C10. Run the merge on a heap in which the two input lists refer to existing
  interval objects. Afterwards every object that existed before the call, so every
  interval of either input, is what it was: same start, end, source and timestamp. The
  intervals the output list refers to are those \<^verbatim>\<open>merge_metadata\<close> computes from the values
  of the inputs, so the extended ends are written to the copies only.
\<close>

theorem merge_metadata_leaves_inputs:
  assumes "list_all (\<lambda>a. a < length h) (ranges1 @ ranges2)"
  shows "take (length h) (fst (merge_metadata_h h ranges1 ranges2)) = h \<and>
         list_all (\<lambda>a. fst (merge_metadata_h h ranges1 ranges2) ! a = h ! a) (ranges1 @ ranges2) \<and>
         map ((!) (fst (merge_metadata_h h ranges1 ranges2)))
             (snd (merge_metadata_h h ranges1 ranges2)) =
           m_ranges (merge_metadata self
             (Some \<lparr>m_version = v1, m_ranges = map ((!) h) ranges1\<rparr>)
             (Some \<lparr>m_version = v2, m_ranges = map ((!) h) ranges2\<rparr>))"
proof -
  let ?as = "sort_key (\<lambda>a. r_start (h ! a)) (ranges1 @ ranges2)"
  let ?h' = "fst (merge_metadata_h h ranges1 ranges2)"
  have valid: "\<forall>a\<in>set ?as. a < length h" using assms by (simp add: list_all_iff)
  have init: "heap_inv h (h, [])" by (simp add: heap_inv_def)
  have r: "heap_inv h (foldl coalesce_step_h (h, []) ?as) \<and>
         map ((!) (fst (foldl coalesce_step_h (h, []) ?as)))
             (snd (foldl coalesce_step_h (h, []) ?as)) =
           foldl coalesce_step [] (map ((!) h) ?as)"
    using foldl_coalesce_step_h_inv[OF init valid] by simp
  have srt: "map ((!) h) ?as = sort_key r_start (map ((!) h) ranges1 @ map ((!) h) ranges2)"
    using map_sort_key[of "(!) h" r_start "ranges1 @ ranges2"] by simp
  have tk: "take (length h) ?h' = h"
    using r by (simp add: merge_metadata_h_def heap_inv_def)
  have "?h' ! a = h ! a" if "a < length h" for a
    using tk that by (metis nth_take)
  then have same: "list_all (\<lambda>a. ?h' ! a = h ! a) (ranges1 @ ranges2)"
    using assms by (simp add: list_all_iff)
  show ?thesis using r srt tk same
    by (simp add: merge_metadata_h_def merge_metadata_def)
qed

theorem merge_metadata_leaves_inputs_witness:
  "list_all (\<lambda>a. a < length
       [\<lparr>r_start = 0, r_end = 10, r_source = ''manual'', r_timestamp = 1\<rparr>,
        \<lparr>r_start = 5, r_end = 15, r_source = ''manual'', r_timestamp = 2\<rparr>]) ([0] @ [1]) \<and>
   merge_metadata_h
       [\<lparr>r_start = 0, r_end = 10, r_source = ''manual'', r_timestamp = 1\<rparr>,
        \<lparr>r_start = 5, r_end = 15, r_source = ''manual'', r_timestamp = 2\<rparr>] [0] [1] =
     ([\<lparr>r_start = 0, r_end = 10, r_source = ''manual'', r_timestamp = 1\<rparr>,
       \<lparr>r_start = 5, r_end = 15, r_source = ''manual'', r_timestamp = 2\<rparr>,
       \<lparr>r_start = 0, r_end = 15, r_source = ''manual'', r_timestamp = 1\<rparr>], [2]) \<and>
   take 2 (fst (merge_metadata_h
       [\<lparr>r_start = 0, r_end = 10, r_source = ''manual'', r_timestamp = 1\<rparr>,
        \<lparr>r_start = 5, r_end = 15, r_source = ''manual'', r_timestamp = 2\<rparr>] [0] [1])) =
       [\<lparr>r_start = 0, r_end = 10, r_source = ''manual'', r_timestamp = 1\<rparr>,
        \<lparr>r_start = 5, r_end = 15, r_source = ''manual'', r_timestamp = 2\<rparr>]"
proof -
  have ev: "merge_metadata_h
       [\<lparr>r_start = 0, r_end = 10, r_source = ''manual'', r_timestamp = 1\<rparr>,
        \<lparr>r_start = 5, r_end = 15, r_source = ''manual'', r_timestamp = 2\<rparr>] [0] [1] =
     ([\<lparr>r_start = 0, r_end = 10, r_source = ''manual'', r_timestamp = 1\<rparr>,
       \<lparr>r_start = 5, r_end = 15, r_source = ''manual'', r_timestamp = 2\<rparr>,
       \<lparr>r_start = 0, r_end = 15, r_source = ''manual'', r_timestamp = 1\<rparr>], [2])"
    by (simp add: merge_metadata_h_def coalesce_step_h_def)
  show ?thesis
    using merge_metadata_leaves_inputs
      [of "[\<lparr>r_start = 0, r_end = 10, r_source = ''manual'', r_timestamp = 1\<rparr>,
            \<lparr>r_start = 5, r_end = 15, r_source = ''manual'', r_timestamp = 2\<rparr>]" "[0]" "[1]"] ev
    by simp
qed

subsection \<open>Statistics\<close>












section \<open>Properties of the file manager\<close>

lemma split_first_None_find: "split_first sub s = None \<Longrightarrow> find_loop sub s i = - 1"
  by (induction s arbitrary: i) (auto split: if_splits option.splits)

lemma split_first_Some_find:
  "split_first sub s = Some (pre, post) \<Longrightarrow> find_loop sub s i = i + int (length pre)"
  by (induction s arbitrary: i pre) (auto split: if_splits option.splits)

lemma split_first_Some_append:
  "split_first sub s = Some (pre, post) \<Longrightarrow> s = pre @ sub @ post"
proof (induction s arbitrary: pre)
  case Nil
  then show ?case by (auto split: if_splits)
next
  case (Cons c cs)
  show ?case
  proof (cases "take (length sub) (c # cs) = sub")
    case True
    then have "pre = []" "post = drop (length sub) (c # cs)" using Cons.prems by auto
    then show ?thesis using True by (metis append_Nil append_take_drop_id)
  next
    case False
    then obtain pre' where "split_first sub cs = Some (pre', post)" "pre = c # pre'"
      using Cons.prems by (auto split: option.splits)
    then show ?thesis using Cons.IH by simp
  qed
qed

text \<open>\<^term>\<open>split_first\<close> finds an occurrence whenever there is one.\<close>

lemma split_first_None_iff: "split_first sub s = None \<longleftrightarrow> (\<nexists>a b. s = a @ sub @ b)"
proof
  assume "split_first sub s = None"
  then show "\<nexists>a b. s = a @ sub @ b"
  proof (induction s)
    case Nil
    then show ?case by (auto split: if_splits)
  next
    case (Cons c cs)
    then have nt: "take (length sub) (c # cs) \<noteq> sub" and n: "split_first sub cs = None"
      by (auto split: if_splits option.splits)
    show ?case
    proof
      assume "\<exists>a b. c # cs = a @ sub @ b"
      then obtain a b where ab: "c # cs = a @ sub @ b" by blast
      show False
      proof (cases a)
        case Nil
        then show ?thesis using ab nt by simp
      next
        case (Cons x a')
        then have "cs = a' @ sub @ b" using ab by simp
        then show ?thesis using Cons.IH[OF n] by blast
      qed
    qed
  qed
next
  assume "\<nexists>a b. s = a @ sub @ b"
  then show "split_first sub s = None"
    by (cases "split_first sub s") (auto dest: split_first_Some_append)
qed

text \<open>The occurrence \<^term>\<open>split_first\<close> returns is the first one.\<close>

lemma split_first_earliest:
  "split_first sub s = Some (pre, post) \<Longrightarrow> s = a @ sub @ b \<Longrightarrow> length pre \<le> length a"
proof (induction s arbitrary: pre a)
  case Nil
  then show ?case by (auto split: if_splits)
next
  case (Cons c cs)
  note prems = Cons.prems and ih = Cons.IH
  show ?case
  proof (cases "take (length sub) (c # cs) = sub")
    case True
    then have "pre = []" using prems(1) by simp
    then show ?thesis by simp
  next
    case False
    then obtain pre' where p: "split_first sub cs = Some (pre', post)" "pre = c # pre'"
      using prems(1) by (auto split: option.splits)
    show ?thesis
    proof (cases a)
      case Nil
      then have "take (length sub) (c # cs) = sub" using prems(2) by simp
      then show ?thesis using False by simp
    next
      case (Cons x a')
      then have "cs = a' @ sub @ b" using prems(2) by simp
      then have "length pre' \<le> length a'" using ih[OF p(1)] by simp
      then show ?thesis using p(2) Cons by simp
    qed
  qed
qed

text \<open>
  Claim C9, as amended. When the start delimiter does not occur, the whole input is the
  content and there is no metadata. When it occurs and no end delimiter follows its first
  occurrence, the content is the text before that occurrence with the white space at its
  end removed, and there is no metadata.
\<close>

theorem parse_lakra_content_recovers:
  "(split_first metadata_start file_content = None \<longrightarrow>
      parse_lakra_content loads file_content = (file_content, PNone)) \<and>
   (split_first metadata_start file_content = Some (pre, post) \<and>
    split_first metadata_end post = None \<longrightarrow>
      parse_lakra_content loads file_content = (rstrip pre, PNone))"
proof (intro conjI impI)
  assume "split_first metadata_start file_content = None"
  then show "parse_lakra_content loads file_content = (file_content, PNone)"
    by (simp add: parse_lakra_content_def py_find_def split_first_None_find)
next
  assume a: "split_first metadata_start file_content = Some (pre, post) \<and>
    split_first metadata_end post = None"
  then have idx: "py_find file_content metadata_start = int (length pre)"
    by (simp add: py_find_def split_first_Some_find)
  have fc: "file_content = pre @ metadata_start @ post"
    using a split_first_Some_append by blast
  have slice: "py_slice file_content 0 (int (length pre)) = pre"
    by (simp add: fc py_slice_def clamp_index_def Let_def)
  have "drop (length pre + length metadata_start) file_content = post"
    by (simp add: fc)
  then have e: "py_find_from file_content metadata_end
      (int (length pre) + int (length metadata_start)) = - 1"
    using a by (simp add: py_find_from_def Let_def fc split_first_None_find nat_add_distrib)
  show "parse_lakra_content loads file_content = (rstrip pre, PNone)"
    unfolding parse_lakra_content_def Let_def idx slice e by simp
qed

theorem parse_lakra_content_recovers_witness:
  "split_first metadata_start ''plain text, no metadata  '' = None \<and>
   parse_lakra_content sample_loads ''plain text, no metadata  '' =
     (''plain text, no metadata  '', PNone) \<and>
   split_first metadata_start ''Hello<!-- GHOSTKEY_METADATA_START -->{}'' =
     Some (''Hello'', ''{}'') \<and>
   split_first metadata_end ''{}'' = None \<and>
   parse_lakra_content sample_loads ''Hello<!-- GHOSTKEY_METADATA_START -->{}'' =
     (''Hello'', PNone)"
proof -
  have a: "split_first metadata_start ''plain text, no metadata  '' = None"
    by (simp add: metadata_start_def)
  have b: "split_first metadata_start ''Hello<!-- GHOSTKEY_METADATA_START -->{}'' =
     Some (''Hello'', ''{}'')"
    by (simp add: metadata_start_def)
  have c: "split_first metadata_end ''{}'' = None"
    by (simp add: metadata_end_def)
  have d: "rstrip ''Hello'' = ''Hello''"
    by (simp add: rstrip_def py_isspace_def)
  show ?thesis
    using parse_lakra_content_recovers[of "''plain text, no metadata  ''" sample_loads]
      parse_lakra_content_recovers
        [of "''Hello<!-- GHOSTKEY_METADATA_START -->{}''" sample_loads "''Hello''" "''{}''"]
      a b c d
    by simp
qed

text \<open>
  The content is not always everything before the start delimiter. A file written with
  two line breaks between the text and the start delimiter, and cut off before the end
  delimiter, is read back without the line breaks.
\<close>

theorem parse_lakra_content_strips:
  "parse_lakra_content sample_loads
     ''Hello\<newline>\<newline><!-- GHOSTKEY_METADATA_START -->\<newline>{}'' = (''Hello'', PNone) \<and>
   split_first metadata_start
     ''Hello\<newline>\<newline><!-- GHOSTKEY_METADATA_START -->\<newline>{}'' =
     Some (''Hello\<newline>\<newline>'', ''\<newline>{}'') \<and>
   ''Hello'' \<noteq> ''Hello\<newline>\<newline>''"
  by (simp add: parse_lakra_content_def py_find_def py_find_from_def py_slice_def
      clamp_index_def rstrip_def py_isspace_def metadata_start_def metadata_end_def Let_def)

end
